theory Spec2Isabelle
  imports Main "HOL-Library.Char_ord"
begin

section \<open>The QR batch generator \<^verbatim>\<open>generate_qr.py\<close>\<close>

text \<open>
  The program loads a table with pandas, checks that the column \<^verbatim>\<open>full_name\<close> exists,
  adds a \<^verbatim>\<open>token\<close> column when there is none, and then walks the rows: each row gets a
  token (its own, trimmed, or a random one), a URL, a file name and a QR image. At the end the
  file names become the column \<^verbatim>\<open>qr_file\<close>, the table is written out, and the images
  are zipped on request.

  Scope of the model. A Python string is modelled as a \<^typ>\<open>string\<close> whose characters
  are the code points below 256; text with larger code points is outside the model. The
  argument \<open>df\<close> of \<open>main\<close> is the table as \<^verbatim>\<open>pd.read_csv\<close> returns it, with the
  default index \<open>0, 1, ..., n - 1\<close>; parsing the CSV file is pandas' work and is not modelled.
  File-system and library calls are recorded as a list of events in the order the program
  issues them; that such a call may fail in the environment is not modelled.
\<close>

subsection \<open>Python string methods\<close>

text \<open>\<^verbatim>\<open>str.isspace\<close> on one character, for the code points below 256.\<close>

definition py_isspace :: "char \<Rightarrow> bool" where
  "py_isspace c \<longleftrightarrow> c \<in> set [CHR 0x09, CHR 0x0A, CHR 0x0B, CHR 0x0C, CHR 0x0D,
     CHR 0x1C, CHR 0x1D, CHR 0x1E, CHR 0x1F, CHR 0x20, CHR 0x85, CHR 0xA0]"

text \<open>\<^verbatim>\<open>s.strip()\<close>: leading and trailing whitespace removed.\<close>

definition py_strip :: "string \<Rightarrow> string" where
  "py_strip s = rev (dropWhile py_isspace (rev (dropWhile py_isspace s)))"

text \<open>\<^verbatim>\<open>s.rstrip(chars)\<close>: trailing characters that occur in \<open>chars\<close> removed.\<close>

definition py_rstrip :: "string \<Rightarrow> string \<Rightarrow> string" where
  "py_rstrip s chars = rev (dropWhile (\<lambda>c. c \<in> set chars) (rev s))"

text \<open>
  \<^verbatim>\<open>s.lower()\<close>, for the code points below 256: the letters \<open>A..Z\<close> and the accented
  capitals \<open>0xC0..0xDE\<close> without the multiplication sign \<open>0xD7\<close> move up by 32; every
  other character stays.
\<close>

definition upper_chars :: "char list" where
  "upper_chars = ''ABCDEFGHIJKLMNOPQRSTUVWXYZ'' @
     [CHR 0xC0, CHR 0xC1, CHR 0xC2, CHR 0xC3, CHR 0xC4, CHR 0xC5, CHR 0xC6, CHR 0xC7,
      CHR 0xC8, CHR 0xC9, CHR 0xCA, CHR 0xCB, CHR 0xCC, CHR 0xCD, CHR 0xCE, CHR 0xCF,
      CHR 0xD0, CHR 0xD1, CHR 0xD2, CHR 0xD3, CHR 0xD4, CHR 0xD5, CHR 0xD6,
      CHR 0xD8, CHR 0xD9, CHR 0xDA, CHR 0xDB, CHR 0xDC, CHR 0xDD, CHR 0xDE]"

definition lower_chars :: "char list" where
  "lower_chars = ''abcdefghijklmnopqrstuvwxyz'' @
     [CHR 0xE0, CHR 0xE1, CHR 0xE2, CHR 0xE3, CHR 0xE4, CHR 0xE5, CHR 0xE6, CHR 0xE7,
      CHR 0xE8, CHR 0xE9, CHR 0xEA, CHR 0xEB, CHR 0xEC, CHR 0xED, CHR 0xEE, CHR 0xEF,
      CHR 0xF0, CHR 0xF1, CHR 0xF2, CHR 0xF3, CHR 0xF4, CHR 0xF5, CHR 0xF6,
      CHR 0xF8, CHR 0xF9, CHR 0xFA, CHR 0xFB, CHR 0xFC, CHR 0xFD, CHR 0xFE]"

definition lower_char :: "char \<Rightarrow> char" where
  "lower_char c = (case map_of (zip upper_chars lower_chars) c of Some l \<Rightarrow> l | None \<Rightarrow> c)"

definition py_lower :: "string \<Rightarrow> string" where
  "py_lower s = map lower_char s"

text \<open>\<^verbatim>\<open>str(n)\<close> for a natural number: its decimal digits.\<close>

definition digit_char :: "nat \<Rightarrow> char" where
  "digit_char d = ''0123456789'' ! d"

fun str_nat :: "nat \<Rightarrow> string" where
  "str_nat n = (if n < 10 then [digit_char n] else str_nat (n div 10) @ [digit_char (n mod 10)])"

declare str_nat.simps [simp del]

text \<open>
  \<^verbatim>\<open>s.zfill(width)\<close>: zeros on the left up to \<open>width\<close>, after a leading sign if there
  is one.
\<close>

definition zfill :: "string \<Rightarrow> nat \<Rightarrow> string" where
  "zfill s width =
     (if width \<le> length s then s
      else (case s of
              c # r \<Rightarrow>
                if c = CHR ''+'' \<or> c = CHR ''-''
                then c # replicate (width - length s) CHR ''0'' @ r
                else replicate (width - length s) CHR ''0'' @ s
            | [] \<Rightarrow> replicate width CHR ''0''))"

subsection \<open>The loaded table\<close>

text \<open>
  A cell of the \<^verbatim>\<open>token\<close> column as the loop reads it: text, or the missing-value
  marker (a float NaN in pandas), which \<^verbatim>\<open>str\<close> renders as \<^verbatim>\<open>nan\<close>. Columns that
  pandas has typed as numbers are outside the model.
\<close>

datatype cell = Text string | NaN

fun py_str :: "cell \<Rightarrow> string" where
  "py_str (Text s) = s"
| "py_str NaN = ''nan''"

text \<open>
  A data frame is stored by column, as pandas does: the number of rows (the length of the
  index \<open>0..<nrows\<close>) and the columns in order, each with its name.
\<close>

record dataframe =
  nrows :: nat
  cols :: "(string \<times> cell list) list"

definition columns :: "dataframe \<Rightarrow> string list" where
  "columns df = map fst (cols df)"

definition column :: "dataframe \<Rightarrow> string \<Rightarrow> cell list option" where
  "column df name = map_of (cols df) name"

text \<open>What pandas guarantees of a loaded table: distinct column names, columns of full length.\<close>

definition wf_df :: "dataframe \<Rightarrow> bool" where
  "wf_df df \<longleftrightarrow> distinct (columns df) \<and> list_all (\<lambda>kv. length (snd kv) = nrows df) (cols df)"

text \<open>\<^verbatim>\<open>df[name] = values\<close>: replaces the column in place, or appends a new one.\<close>

definition set_column :: "string \<Rightarrow> cell list \<Rightarrow> dataframe \<Rightarrow> dataframe" where
  "set_column name vals df =
     (if name \<in> set (columns df)
      then df\<lparr>cols := map (\<lambda>kv. if fst kv = name then (fst kv, vals) else kv) (cols df)\<rparr>
      else df\<lparr>cols := cols df @ [(name, vals)]\<rparr>)"

text \<open>\<^verbatim>\<open>df.at[idx, name] = v\<close> on an existing column.\<close>

definition at_set :: "nat \<Rightarrow> string \<Rightarrow> cell \<Rightarrow> dataframe \<Rightarrow> dataframe" where
  "at_set idx name v df =
     df\<lparr>cols := map (\<lambda>kv. if fst kv = name then (fst kv, (snd kv)[idx := v]) else kv) (cols df)\<rparr>"

text \<open>
  \<^verbatim>\<open>df.iterrows()\<close>: the pairs of index and row, taken from the table as it is when
  the loop starts. A row maps each column name to its cell.
\<close>

type_synonym row = "(string \<times> cell) list"

definition row_at :: "dataframe \<Rightarrow> nat \<Rightarrow> row" where
  "row_at df i = map (\<lambda>kv. (fst kv, snd kv ! i)) (cols df)"

definition iterrows :: "dataframe \<Rightarrow> (nat \<times> row) list" where
  "iterrows df = map (\<lambda>i. (i, row_at df i)) [0..<nrows df]"

datatype py_error = KeyError | ValueError

definition row_get :: "row \<Rightarrow> string \<Rightarrow> py_error + cell" where
  "row_get r key = (case map_of r key of None \<Rightarrow> Inl KeyError | Some c \<Rightarrow> Inr c)"

subsection \<open>Arguments, paths, effects\<close>

datatype image_format = Png | Svg

fun fmt_str :: "image_format \<Rightarrow> string" where
  "fmt_str Png = ''png''"
| "fmt_str Svg = ''svg''"

record args =
  csv :: string
  webapp_url :: string
  out :: string
  format :: image_format
  token_len :: int
  zip_opt :: bool
  output_csv :: string

text \<open>
  Paths as \<^verbatim>\<open>pathlib\<close> keeps them on a POSIX system: a root (empty, one slash, or two
  slashes when the text starts with exactly two) and the components after it. Empty
  components and \<^verbatim>\<open>.\<close> components are dropped when a path is parsed.
\<close>

record path =
  p_root :: string
  p_tail :: "string list"

text \<open>\<^verbatim>\<open>s.split(sep)\<close> for a separator of one character.\<close>

fun py_split :: "char \<Rightarrow> string \<Rightarrow> string list" where
  "py_split sep [] = [[]]"
| "py_split sep (x # xs) =
     (if x = sep then [] # py_split sep xs
      else (case py_split sep xs of w # ws \<Rightarrow> (x # w) # ws | [] \<Rightarrow> [[x]]))"

definition splitroot :: "string \<Rightarrow> string \<times> string" where
  "splitroot part =
     (if part \<noteq> [] \<and> hd part = CHR ''/''
      then (let stripped_part = dropWhile (\<lambda>c. c = CHR ''/'') part
            in if length part - length stripped_part = 2
               then (''//'', stripped_part) else (''/'', stripped_part))
      else ([], part))"

text \<open>\<^verbatim>\<open>Path(s)\<close>.\<close>

definition Path :: "string \<Rightarrow> path" where
  "Path s =
     \<lparr>p_root = fst (splitroot s),
      p_tail = filter (\<lambda>x. x \<noteq> [] \<and> x \<noteq> ''.'') (py_split CHR ''/'' (snd (splitroot s)))\<rparr>"

text \<open>\<^verbatim>\<open>p / key\<close>: an anchored \<open>key\<close> replaces \<open>p\<close>, any other is appended.\<close>

definition truediv :: "path \<Rightarrow> string \<Rightarrow> path" where
  "truediv p key =
     (let q = Path key
      in if p_root q \<noteq> [] then q else \<lparr>p_root = p_root p, p_tail = p_tail p @ p_tail q\<rparr>)"

text \<open>\<^verbatim>\<open>p.name\<close>: the final component, empty when there is none.\<close>

definition path_name :: "path \<Rightarrow> string" where
  "path_name p = (if p_tail p = [] then [] else last (p_tail p))"

text \<open>\<^verbatim>\<open>s.rfind(c)\<close>: the index of the last \<open>c\<close>, or \<open>-1\<close>.\<close>

definition py_rfind :: "string \<Rightarrow> char \<Rightarrow> int" where
  "py_rfind s c =
     (if c \<in> set s
      then int (length s) - 1 - int (length (takeWhile (\<lambda>x. x \<noteq> c) (rev s)))
      else - 1)"

text \<open>
  \<^verbatim>\<open>p.suffix\<close>: the name from its last dot on, when that dot is neither the first nor the
  last character of the name.
\<close>

definition path_suffix :: "path \<Rightarrow> string" where
  "path_suffix p =
     (let name = path_name p; i = py_rfind name CHR ''.''
      in if 0 < i \<and> i < int (length name) - 1 then drop (nat i) name else [])"

text \<open>
  \<^verbatim>\<open>p.with_suffix(suffix)\<close>: raises \<^verbatim>\<open>ValueError\<close> for a suffix with a slash, for one
  that does not start with a dot or is the dot alone, and for a path with an empty name;
  otherwise the suffix replaces the old one, or is appended when there is none.
\<close>

definition with_suffix :: "path \<Rightarrow> string \<Rightarrow> py_error + path" where
  "with_suffix p suffix =
     (if CHR ''/'' \<in> set suffix then Inl ValueError
      else if (suffix \<noteq> [] \<and> hd suffix \<noteq> CHR ''.'') \<or> suffix = ''.'' then Inl ValueError
      else (let name = path_name p
            in if name = [] then Inl ValueError
               else (let old_suffix = path_suffix p;
                         name' = (if old_suffix = [] then name @ suffix
                                  else take (length name - length old_suffix) name @ suffix)
                     in Inr (p\<lparr>p_tail := butlast (p_tail p) @ [name']\<rparr>))))"

datatype compression = ZIP_STORED | ZIP_DEFLATED

text \<open>
  The effects of a run, in program order: the directory created, each image rendered by
  \<^verbatim>\<open>make_qr(data, out_path, fmt)\<close>, each line printed, the table written by
  \<^verbatim>\<open>to_csv\<close>, and the archive with its members as pairs of source file and name in
  the archive.
\<close>

datatype event =
    Mkdir path
  | Make_qr string path image_format
  | Print_ok string
  | To_csv string dataframe
  | Print_wrote string
  | Zip_write path compression "(path \<times> string) list"
  | Print_created path

text \<open>
  How a run ends: it returns, or \<^verbatim>\<open>sys.exit(message)\<close> prints the message to the error
  stream and ends the process with status 1, or an exception escapes (status 1 as well).
\<close>

datatype exit = Returned | Sys_exit string | Raised py_error

fun exit_status :: "exit \<Rightarrow> nat" where
  "exit_status Returned = 0"
| "exit_status (Sys_exit msg) = 1"
| "exit_status (Raised e) = 1"

record outcome =
  exit_state :: exit
  events :: "event list"

subsection \<open>Random tokens\<close>

text \<open>
  \<^verbatim>\<open>random_token(length)\<close> joins \<^verbatim>\<open>random.choices(alphabet, k=length)\<close>: \<open>k\<close>
  draws, each an index into the alphabet; a negative \<open>k\<close> gives no draw at all. The global
  generator is a parameter here: \<open>rnd j\<close> decides the \<open>j\<close>-th draw of the run, and the
  position counts the draws made so far.
\<close>

definition alphabet :: string where
  "alphabet = ''ABCDEFGHIJKLMNOPQRSTUVWXYZ'' @ ''0123456789''"

definition random_token :: "(nat \<Rightarrow> nat) \<Rightarrow> nat \<Rightarrow> int \<Rightarrow> string \<times> nat" where
  "random_token rnd pos len =
     (let k = (if len < 0 then 0 else nat len)
      in (map (\<lambda>j. alphabet ! (rnd (pos + j) mod length alphabet)) [0..<k], pos + k))"

subsection \<open>The row loop and \<open>main\<close>\<close>

record loop_state =
  st_df :: dataframe
  filenames :: "string list"
  log :: "event list"
  rng_pos :: nat

text \<open>
  Lines 98 to 102, the token of a row: the cell as text, trimmed; when that is empty or
  reads \<^verbatim>\<open>nan\<close> in lower case, a random token, which is also stored in the table.
\<close>

definition resolve_token ::
    "args \<Rightarrow> (nat \<Rightarrow> nat) \<Rightarrow> nat \<Rightarrow> cell \<Rightarrow> loop_state \<Rightarrow> string \<times> loop_state" where
  "resolve_token a rnd idx c st =
     (let token = py_strip (py_str c)
      in if token = [] \<or> py_lower token = ''nan''
         then (let tp = random_token rnd (rng_pos st) (token_len a)
               in (fst tp, st\<lparr>st_df := at_set idx ''token'' (Text (fst tp)) (st_df st),
                                rng_pos := snd tp\<rparr>))
         else (token, st))"

text \<open>Line 104, the URL; line 105, the file name.\<close>

definition build_url :: "string \<Rightarrow> string \<Rightarrow> string" where
  "build_url base token = py_rstrip base ''?'' @ ''?token='' @ token"

definition file_name :: "nat \<Rightarrow> nat \<Rightarrow> string \<Rightarrow> image_format \<Rightarrow> string" where
  "file_name idx digits token fmt =
     zfill (str_nat (idx + 1)) digits @ ''_'' @ token @ ''.'' @ fmt_str fmt"

definition body ::
    "args \<Rightarrow> (nat \<Rightarrow> nat) \<Rightarrow> path \<Rightarrow> nat \<Rightarrow> nat \<times> row \<Rightarrow> loop_state \<Rightarrow> py_error + loop_state" where
  "body a rnd out_dir digits ir st =
     (case row_get (snd ir) ''token'' of
        Inl e \<Rightarrow> Inl e
      | Inr c \<Rightarrow>
          (let ts = resolve_token a rnd (fst ir) c st;
               token = fst ts;
               st1 = snd ts;
               url = build_url (webapp_url a) token;
               fname = file_name (fst ir) digits token (format a)
           in Inr (st1\<lparr>filenames := filenames st1 @ [fname],
                        log := log st1 @ [Make_qr url (truediv out_dir fname) (format a),
                                          Print_ok fname]\<rparr>)))"

text \<open>The \<^verbatim>\<open>for\<close> loop: an exception in a row ends it, with the state reached so far.\<close>

fun for_rows ::
    "('x \<Rightarrow> 's \<Rightarrow> py_error + 's) \<Rightarrow> 'x list \<Rightarrow> 's \<Rightarrow> py_error option \<times> 's" where
  "for_rows f [] st = (None, st)"
| "for_rows f (x # xs) st =
     (case f x st of Inl e \<Rightarrow> (Some e, st) | Inr st' \<Rightarrow> for_rows f xs st')"

definition missing_column_message :: string where
  "missing_column_message =
     ''[error] CSV m'' @ [CHR 0xE5] @ ''ste ha kolumnen '' @ [CHR 0x27] @ ''full_name'' @ [CHR 0x27]"

text \<open>Lines 89 and 90: the \<^verbatim>\<open>token\<close> column is created, filled with the empty string.\<close>

definition ensure_token_column :: "dataframe \<Rightarrow> dataframe" where
  "ensure_token_column df =
     (if ''token'' \<notin> set (columns df)
      then set_column ''token'' (replicate (nrows df) (Text [])) df
      else df)"

definition main :: "args \<Rightarrow> dataframe \<Rightarrow> (nat \<Rightarrow> nat) \<Rightarrow> outcome" where
  "main a df0 rnd =
     (if ''full_name'' \<notin> set (columns df0)
      then \<lparr>exit_state = Sys_exit missing_column_message, events = []\<rparr>
      else
        (let df = ensure_token_column df0;
             out_dir = Path (out a);
             digits = length (str_nat (nrows df));
             r = for_rows (body a rnd out_dir digits) (iterrows df)
                   \<lparr>st_df = df, filenames = [], log = [Mkdir out_dir], rng_pos = 0\<rparr>;
             st = snd r
         in (case fst r of
               Some e \<Rightarrow> \<lparr>exit_state = Raised e, events = log st\<rparr>
             | None \<Rightarrow>
                 (let df' = set_column ''qr_file'' (map Text (filenames st)) (st_df st);
                      evs = log st @ [To_csv (output_csv a) df', Print_wrote (output_csv a)]
                  in if zip_opt a
                     then (case with_suffix out_dir ''.zip'' of
                             Inl e \<Rightarrow> \<lparr>exit_state = Raised e, events = evs\<rparr>
                           | Inr zip_path \<Rightarrow>
                               \<lparr>exit_state = Returned,
                                events = evs @
                                  [Zip_write zip_path ZIP_DEFLATED
                                     (map (\<lambda>name. (truediv out_dir name, name)) (filenames st)),
                                   Print_created zip_path]\<rparr>)
                     else \<lparr>exit_state = Returned, events = evs\<rparr>))))"

subsection \<open>What a run leaves behind\<close>

text \<open>The tables written, the images rendered and the archives created, read off the events.\<close>

fun tables_of :: "event \<Rightarrow> dataframe list" where
  "tables_of (To_csv p d) = [d]"
| "tables_of (Mkdir p) = []"
| "tables_of (Make_qr d p f) = []"
| "tables_of (Print_ok n) = []"
| "tables_of (Print_wrote p) = []"
| "tables_of (Zip_write p c ms) = []"
| "tables_of (Print_created p) = []"

definition written_tables :: "event list \<Rightarrow> dataframe list" where
  "written_tables evs = concat (map tables_of evs)"

fun images_of :: "event \<Rightarrow> (string \<times> path \<times> image_format) list" where
  "images_of (Make_qr d p f) = [(d, p, f)]"
| "images_of (Mkdir p) = []"
| "images_of (To_csv p d) = []"
| "images_of (Print_ok n) = []"
| "images_of (Print_wrote p) = []"
| "images_of (Zip_write p c ms) = []"
| "images_of (Print_created p) = []"

definition rendered :: "event list \<Rightarrow> (string \<times> path \<times> image_format) list" where
  "rendered evs = concat (map images_of evs)"

fun archives_of :: "event \<Rightarrow> (path \<times> compression \<times> (path \<times> string) list) list" where
  "archives_of (Zip_write p c ms) = [(p, c, ms)]"
| "archives_of (Mkdir p) = []"
| "archives_of (Make_qr d p f) = []"
| "archives_of (To_csv p d) = []"
| "archives_of (Print_ok n) = []"
| "archives_of (Print_wrote p) = []"
| "archives_of (Print_created p) = []"

definition archives :: "event list \<Rightarrow> (path \<times> compression \<times> (path \<times> string) list) list" where
  "archives evs = concat (map archives_of evs)"

text \<open>A column of the output manifest: of the one table the run wrote.\<close>

definition manifest_column :: "outcome \<Rightarrow> string \<Rightarrow> cell list option" where
  "manifest_column r name =
     (case written_tables (events r) of [m] \<Rightarrow> column m name | _ \<Rightarrow> None)"

subsection \<open>The run in closed form\<close>

text \<open>
  The loop condition of line 99 as a predicate on the cell, and the tokens, file names,
  events and final table of a whole run as functions of the input. The lemmas below show
  that \<open>main\<close> computes exactly these.
\<close>

definition is_missing :: "cell \<Rightarrow> bool" where
  "is_missing c \<longleftrightarrow> py_strip (py_str c) = [] \<or> py_lower (py_strip (py_str c)) = ''nan''"

fun resolved_tokens :: "(nat \<Rightarrow> nat) \<Rightarrow> int \<Rightarrow> nat \<Rightarrow> cell list \<Rightarrow> string list" where
  "resolved_tokens rnd len pos [] = []"
| "resolved_tokens rnd len pos (c # cs) =
     (if is_missing c
      then fst (random_token rnd pos len) # resolved_tokens rnd len (snd (random_token rnd pos len)) cs
      else py_strip (py_str c) # resolved_tokens rnd len pos cs)"

fun final_pos :: "(nat \<Rightarrow> nat) \<Rightarrow> int \<Rightarrow> nat \<Rightarrow> cell list \<Rightarrow> nat" where
  "final_pos rnd len pos [] = pos"
| "final_pos rnd len pos (c # cs) =
     (if is_missing c then final_pos rnd len (snd (random_token rnd pos len)) cs
      else final_pos rnd len pos cs)"

definition stored_cell :: "cell \<Rightarrow> string \<Rightarrow> cell" where
  "stored_cell c t = (if is_missing c then Text t else c)"

definition row_events :: "args \<Rightarrow> path \<Rightarrow> string \<Rightarrow> string \<Rightarrow> event list" where
  "row_events a od t f =
     [Make_qr (build_url (webapp_url a) t) (truediv od f) (format a), Print_ok f]"

definition token_cells :: "dataframe \<Rightarrow> cell list" where
  "token_cells df = (case column df ''token'' of Some vs \<Rightarrow> vs | None \<Rightarrow> replicate (nrows df) (Text []))"

definition run_tokens :: "args \<Rightarrow> dataframe \<Rightarrow> (nat \<Rightarrow> nat) \<Rightarrow> string list" where
  "run_tokens a df rnd = resolved_tokens rnd (token_len a) 0 (token_cells df)"

definition run_files :: "args \<Rightarrow> dataframe \<Rightarrow> (nat \<Rightarrow> nat) \<Rightarrow> string list" where
  "run_files a df rnd =
     map2 (\<lambda>i t. file_name i (length (str_nat (nrows df))) t (format a)) [0..<nrows df]
       (run_tokens a df rnd)"

definition run_manifest :: "args \<Rightarrow> dataframe \<Rightarrow> (nat \<Rightarrow> nat) \<Rightarrow> dataframe" where
  "run_manifest a df rnd =
     set_column ''qr_file'' (map Text (run_files a df rnd))
       (set_column ''token'' (map2 stored_cell (token_cells df) (run_tokens a df rnd))
          (ensure_token_column df))"

definition run_row_events :: "args \<Rightarrow> dataframe \<Rightarrow> (nat \<Rightarrow> nat) \<Rightarrow> event list" where
  "run_row_events a df rnd =
     concat (map2 (\<lambda>t f. row_events a (Path (out a)) t f) (run_tokens a df rnd) (run_files a df rnd))"

definition zip_events :: "args \<Rightarrow> string list \<Rightarrow> event list" where
  "zip_events a files =
     (if zip_opt a
      then (case with_suffix (Path (out a)) ''.zip'' of
              Inl e \<Rightarrow> []
            | Inr zip_path \<Rightarrow>
                [Zip_write zip_path ZIP_DEFLATED
                   (map (\<lambda>name. (truediv (Path (out a)) name, name)) files),
                 Print_created zip_path])
      else [])"

definition zip_exit :: "args \<Rightarrow> exit" where
  "zip_exit a =
     (if zip_opt a
      then (case with_suffix (Path (out a)) ''.zip'' of
              Inl e \<Rightarrow> Raised e
            | Inr zip_path \<Rightarrow> Returned)
      else Returned)"

subsection \<open>Vocabulary of the specification\<close>

text \<open>The text \<^verbatim>\<open>nan\<close> under any letter casing.\<close>

definition nan_like :: "string \<Rightarrow> bool" where
  "nan_like t \<longleftrightarrow>
     t \<in> set [''nan'', ''naN'', ''nAn'', ''nAN'', ''Nan'', ''NaN'', ''NAn'', ''NAN'']"

text \<open>A token value that is semantically present: not blank after trimming, not a placeholder.\<close>

definition present :: "cell \<Rightarrow> bool" where
  "present c \<longleftrightarrow> py_strip (py_str c) \<noteq> [] \<and> \<not> nan_like (py_strip (py_str c))"

text \<open>The ordinal \<open>i\<close>, zero-padded to the decimal width of \<open>n\<close>.\<close>

definition padded_ordinal :: "nat \<Rightarrow> nat \<Rightarrow> string" where
  "padded_ordinal i n =
     replicate (length (str_nat n) - length (str_nat i)) CHR ''0'' @ str_nat i"

text \<open>The extension that goes with the selected format.\<close>

definition ext_of :: "image_format \<Rightarrow> string" where
  "ext_of f = (if f = Svg then ''svg'' else ''png'')"

text \<open>An uppercase ASCII letter or a decimal digit.\<close>

definition upper_or_digit :: "char \<Rightarrow> bool" where
  "upper_or_digit c \<longleftrightarrow>
     (CHR ''A'' \<le> c \<and> c \<le> CHR ''Z'') \<or> (CHR ''0'' \<le> c \<and> c \<le> CHR ''9'')"

definition ends_with :: "char \<Rightarrow> string \<Rightarrow> bool" where
  "ends_with c s \<longleftrightarrow> s \<noteq> [] \<and> last s = c"


subsection \<open>Sample inputs\<close>

definition ex_args :: args where
  "ex_args = \<lparr>csv = ''people.csv'', webapp_url = ''https://example.com/x?'', out = ''qr_out'',
     format = Png, token_len = 8, zip_opt = True, output_csv = ''output.csv''\<rparr>"

definition ex_rnd :: "nat \<Rightarrow> nat" where
  "ex_rnd j = 7 * j + 3"

definition ex_table :: dataframe where
  "ex_table = \<lparr>nrows = 3,
     cols = [(''full_name'', [Text ''Ann'', Text ''Bo'', Text ''Cy'']),
             (''token'', [Text '' ABC123 '', NaN, Text ''NaN''])]\<rparr>"

definition ex_names_only :: dataframe where
  "ex_names_only = \<lparr>nrows = 1, cols = [(''full_name'', [Text ''Ann''])]\<rparr>"

definition ex_no_name :: dataframe where
  "ex_no_name = \<lparr>nrows = 1, cols = [(''name'', [Text ''Ann'']), (''token'', [Text ''ABC123''])]\<rparr>"

definition ex_state :: loop_state where
  "ex_state = \<lparr>st_df = ex_table, filenames = [], log = [Mkdir (Path ''qr_out'')], rng_pos = 0\<rparr>"

definition ex_neg_args :: args where
  "ex_neg_args = ex_args\<lparr>token_len := - 1\<rparr>"



text \<open>The table \<open>df\<close> with the token cell of row \<open>i\<close> replaced by \<open>c\<close>.\<close>

definition with_token_cell :: "nat \<Rightarrow> cell \<Rightarrow> dataframe \<Rightarrow> dataframe" where
  "with_token_cell i c df =
     \<lparr>nrows = nrows df,
      cols = map (\<lambda>kv. if fst kv = ''token'' then (''token'', (snd kv)[i := c]) else kv) (cols df)\<rparr>"


section \<open>Properties\<close>

subsection \<open>Table operations and the loop\<close>

lemma length_resolved_tokens [simp]: "length (resolved_tokens rnd len pos cs) = length cs"
  by (induction cs arbitrary: pos) auto

lemma map_of_replace:
  "name \<in> fst ` set xs \<Longrightarrow>
   map_of (map (\<lambda>kv. if fst kv = name then (fst kv, vals) else kv) xs) name = Some vals"
  by (induction xs) auto

lemma columns_set_column_mem:
  "name \<in> set (columns df) \<Longrightarrow> columns (set_column name vs df) = columns df"
  by (auto simp: set_column_def columns_def cong: map_cong)

lemma column_set_column:
  "column (set_column name vs df) name = Some vs"
proof (cases "name \<in> set (columns df)")
  case True
  then show ?thesis
    by (simp add: set_column_def column_def columns_def map_of_replace)
next
  case False
  then have "map_of (cols df) name = None"
    by (simp add: columns_def map_of_eq_None_iff)
  with False show ?thesis
    by (simp add: set_column_def column_def map_add_def)
qed

lemma at_set_set_column:
  "name \<in> set (columns df) \<Longrightarrow>
   at_set i name v (set_column name xs df) = set_column name (xs[i := v]) df"
  by (auto simp: at_set_def set_column_def columns_def comp_def cong: map_cong)

lemma map_replace_same:
  "distinct (map fst xs) \<Longrightarrow> map_of xs name = Some vs \<Longrightarrow>
   map (\<lambda>kv. if fst kv = name then (fst kv, vs) else kv) xs = xs"
proof (induction xs)
  case Nil
  then show ?case by simp
next
  case (Cons x xs)
  show ?case
  proof (cases "fst x = name")
    case True
    with Cons.prems have "snd x = vs" by (cases x) auto
    moreover from True Cons.prems have "name \<notin> fst ` set xs" by auto
    then have "map (\<lambda>kv. if fst kv = name then (fst kv, vs) else kv) xs = xs"
      by (induction xs) auto
    ultimately show ?thesis using True by (cases x) auto
  next
    case False
    with Cons show ?thesis by auto
  qed
qed

lemma set_column_same:
  "distinct (columns df) \<Longrightarrow> column df name = Some vs \<Longrightarrow> set_column name vs df = df"
  unfolding set_column_def column_def columns_def
  by (auto simp: map_replace_same dest: map_of_SomeD intro: rev_image_eqI)

lemma column_mem: "column df name = Some vs \<Longrightarrow> name \<in> set (columns df)"
  unfolding column_def columns_def by (auto dest: map_of_SomeD intro: rev_image_eqI)

lemma row_get_row_at:
  "column df name = Some vs \<Longrightarrow> row_get (row_at df i) name = Inr (vs ! i)"
proof -
  have "map_of (map (\<lambda>kv. (fst kv, snd kv ! i)) xs) name = map_option (\<lambda>v. v ! i) (map_of xs name)"
    for xs :: "(string \<times> cell list) list"
    by (induction xs) auto
  then show "column df name = Some vs \<Longrightarrow> row_get (row_at df i) name = Inr (vs ! i)"
    by (simp add: row_get_def row_at_def column_def)
qed

lemma body_step:
  assumes "column df ''token'' = Some tc" and "tc ! i = c"
  shows "body a rnd od dg (i, row_at df i) st =
     Inr ((if is_missing c
           then st\<lparr>st_df := at_set i ''token'' (Text (fst (random_token rnd (rng_pos st) (token_len a)))) (st_df st),
                   rng_pos := snd (random_token rnd (rng_pos st) (token_len a))\<rparr>
           else st)
          \<lparr>filenames := filenames st @ [file_name i dg (hd (resolved_tokens rnd (token_len a) (rng_pos st) [c])) (format a)],
           log := log st @ row_events a od (hd (resolved_tokens rnd (token_len a) (rng_pos st) [c]))
                     (file_name i dg (hd (resolved_tokens rnd (token_len a) (rng_pos st) [c])) (format a))\<rparr>)"
  using assms
  by (simp add: body_def row_get_row_at resolve_token_def is_missing_def Let_def row_events_def)


lemma stored_cell_missing: "is_missing c \<Longrightarrow> stored_cell c t = Text t"
  by (simp add: stored_cell_def)

lemma stored_cell_present: "\<not> is_missing c \<Longrightarrow> stored_cell c t = c"
  by (simp add: stored_cell_def)

lemma for_rows_closed:
  assumes col: "column df ''token'' = Some tc"
    and len: "i0 + length cs = n"
    and dr: "drop i0 tc = cs"
    and pre: "length pre = i0"
    and sd: "st_df st = set_column ''token'' (pre @ cs) df"
  shows "for_rows (body a rnd od dg) (map (\<lambda>i. (i, row_at df i)) [i0..<n]) st =
    (None,
     \<lparr>st_df = set_column ''token''
         (pre @ map2 stored_cell cs (resolved_tokens rnd (token_len a) (rng_pos st) cs)) df,
      filenames = filenames st @
         map2 (\<lambda>i t. file_name i dg t (format a)) [i0..<n]
           (resolved_tokens rnd (token_len a) (rng_pos st) cs),
      log = log st @
         concat (map2 (\<lambda>i t. row_events a od t (file_name i dg t (format a))) [i0..<n]
           (resolved_tokens rnd (token_len a) (rng_pos st) cs)),
      rng_pos = final_pos rnd (token_len a) (rng_pos st) cs\<rparr>)"
  using len dr pre sd
proof (induction cs arbitrary: i0 pre st)
  case Nil
  then show ?case by simp
next
  case (Cons c cs)
  from Cons.prems have lt: "i0 < n" by simp
  from Cons.prems have ci: "tc ! i0 = c"
    by (metis nth_via_drop)
  from Cons.prems have dr': "drop (Suc i0) tc = cs"
    by (metis drop_Suc tl_drop list.sel(3))
  have mem: "''token'' \<in> set (columns df)" using col by (rule column_mem)
  let ?t = "hd (resolved_tokens rnd (token_len a) (rng_pos st) [c])"
  let ?st1 = "(if is_missing c
           then st\<lparr>st_df := at_set i0 ''token'' (Text (fst (random_token rnd (rng_pos st) (token_len a)))) (st_df st),
                   rng_pos := snd (random_token rnd (rng_pos st) (token_len a))\<rparr>
           else st)
          \<lparr>filenames := filenames st @ [file_name i0 dg ?t (format a)],
           log := log st @ row_events a od ?t (file_name i0 dg ?t (format a))\<rparr>"
  have step: "body a rnd od dg (i0, row_at df i0) st = Inr ?st1"
    by (rule body_step [OF col ci])
  have sd1: "st_df ?st1 = set_column ''token'' ((pre @ [stored_cell c ?t]) @ cs) df"
    using Cons.prems mem
    by (cases "is_missing c")
      (simp_all add: at_set_set_column stored_cell_missing stored_cell_present list_update_append)
  have ih: "for_rows (body a rnd od dg) (map (\<lambda>i. (i, row_at df i)) [Suc i0..<n]) ?st1 = (None,
     \<lparr>st_df = set_column ''token''
         ((pre @ [stored_cell c ?t]) @ map2 stored_cell cs (resolved_tokens rnd (token_len a) (rng_pos ?st1) cs)) df,
      filenames = filenames ?st1 @
         map2 (\<lambda>i t. file_name i dg t (format a)) [Suc i0..<n]
           (resolved_tokens rnd (token_len a) (rng_pos ?st1) cs),
      log = log ?st1 @
         concat (map2 (\<lambda>i t. row_events a od t (file_name i dg t (format a))) [Suc i0..<n]
           (resolved_tokens rnd (token_len a) (rng_pos ?st1) cs)),
      rng_pos = final_pos rnd (token_len a) (rng_pos ?st1) cs\<rparr>)"
    by (rule Cons.IH [OF _ dr' _ sd1]) (use Cons.prems in auto)
  have upt: "[i0..<n] = i0 # [Suc i0..<n]" using lt by (rule upt_conv_Cons)
  show ?case
    unfolding upt list.map for_rows.simps step sum.case ih
    by (cases "is_missing c") (simp_all add: stored_cell_missing stored_cell_present)
qed

lemma nrows_ensure [simp]: "nrows (ensure_token_column df) = nrows df"
  by (simp add: ensure_token_column_def set_column_def)

lemma column_ensure: "column (ensure_token_column df) ''token'' = Some (token_cells df)"
proof (cases "''token'' \<in> set (columns df)")
  case True
  then have "map_of (cols df) ''token'' \<noteq> None"
    by (simp add: columns_def map_of_eq_None_iff)
  then obtain vs where "map_of (cols df) ''token'' = Some vs"
    by blast
  with True show ?thesis
    by (simp add: ensure_token_column_def token_cells_def column_def)
next
  case False
  then have "map_of (cols df) ''token'' = None"
    by (simp add: columns_def map_of_eq_None_iff)
  with False show ?thesis
    by (simp add: ensure_token_column_def token_cells_def column_set_column) (simp add: column_def)
qed

lemma wf_column_length: "wf_df df \<Longrightarrow> column df name = Some vs \<Longrightarrow> length vs = nrows df"
proof -
  assume wf: "wf_df df" and c: "column df name = Some vs"
  from c have "(name, vs) \<in> set (cols df)"
    unfolding column_def by (rule map_of_SomeD)
  moreover from wf have "\<forall>kv\<in>set (cols df). length (snd kv) = nrows df"
    by (simp add: wf_df_def list_all_iff)
  ultimately show "length vs = nrows df" by fastforce
qed

lemma length_token_cells: "wf_df df \<Longrightarrow> length (token_cells df) = nrows df"
proof (cases "column df ''token''")
  case None
  then show ?thesis by (simp add: token_cells_def)
next
  case (Some vs)
  assume "wf_df df"
  from wf_column_length [OF this Some] Some show ?thesis by (simp add: token_cells_def)
qed

lemma distinct_ensure: "wf_df df \<Longrightarrow> distinct (columns (ensure_token_column df))"
proof (cases "''token'' \<in> set (columns df)")
  case True
  assume "wf_df df"
  with True show ?thesis by (simp add: wf_df_def ensure_token_column_def)
next
  case False
  assume "wf_df df"
  with False show ?thesis
    by (simp add: wf_df_def ensure_token_column_def set_column_def columns_def)
qed

lemma concat_map2_rows:
  "length is = length ts \<Longrightarrow>
   concat (map2 (\<lambda>i t. row_events a od t (f i t)) is ts) =
   concat (map2 (\<lambda>t g. row_events a od t g) ts (map2 f is ts))"
  by (induction "is" ts rule: list_induct2) simp_all

lemma main_closed:
  assumes wf: "wf_df df" and fn: "''full_name'' \<in> set (columns df)"
  shows "main a df rnd =
    \<lparr>exit_state = zip_exit a,
     events = Mkdir (Path (out a)) # run_row_events a df rnd @
       [To_csv (output_csv a) (run_manifest a df rnd), Print_wrote (output_csv a)] @
       zip_events a (run_files a df rnd)\<rparr>"
proof -
  let ?df = "ensure_token_column df"
  let ?dg = "length (str_nat (nrows df))"
  let ?st = "\<lparr>st_df = ?df, filenames = [], log = [Mkdir (Path (out a))], rng_pos = 0\<rparr>"
  let ?ts = "run_tokens a df rnd"
  have col: "column ?df ''token'' = Some (token_cells df)" by (rule column_ensure)
  have len: "0 + length (token_cells df) = nrows df"
    using wf by (simp add: length_token_cells)
  have sd: "st_df ?st = set_column ''token'' ([] @ token_cells df) ?df"
    using distinct_ensure [OF wf] col by (simp add: set_column_same)
  have raw: "for_rows (body a rnd (Path (out a)) ?dg)
        (map (\<lambda>i. (i, row_at ?df i)) [0..<nrows df]) ?st =
      (None,
       \<lparr>st_df = set_column ''token''
           ([] @ map2 stored_cell (token_cells df)
              (resolved_tokens rnd (token_len a) (rng_pos ?st) (token_cells df))) ?df,
        filenames = filenames ?st @
           map2 (\<lambda>i t. file_name i ?dg t (format a)) [0..<nrows df]
             (resolved_tokens rnd (token_len a) (rng_pos ?st) (token_cells df)),
        log = log ?st @
           concat (map2 (\<lambda>i t. row_events a (Path (out a)) t (file_name i ?dg t (format a)))
             [0..<nrows df]
             (resolved_tokens rnd (token_len a) (rng_pos ?st) (token_cells df))),
        rng_pos = final_pos rnd (token_len a) (rng_pos ?st) (token_cells df)\<rparr>)"
    by (rule for_rows_closed [OF col len _ _ sd]) simp_all
  have ev: "concat (map2 (\<lambda>i t. row_events a (Path (out a)) t (file_name i ?dg t (format a)))
             [0..<nrows df] ?ts) = run_row_events a df rnd"
    unfolding run_row_events_def run_files_def
    by (rule concat_map2_rows) (use len in \<open>simp add: run_tokens_def\<close>)
  have ts: "resolved_tokens rnd (token_len a) 0 (token_cells df) = ?ts"
    by (simp only: run_tokens_def)
  have fs: "map2 (\<lambda>i t. file_name i ?dg t (format a)) [0..<nrows df] ?ts = run_files a df rnd"
    by (simp only: run_files_def)
  have st0: "rng_pos ?st = 0" "filenames ?st = []" "log ?st = [Mkdir (Path (out a))]"
    by simp_all
  have nr: "nrows ?df = nrows df" by (rule nrows_ensure)
  have loop: "for_rows (body a rnd (Path (out a)) (length (str_nat (nrows ?df)))) (iterrows ?df) ?st =
      (None,
       \<lparr>st_df = set_column ''token'' (map2 stored_cell (token_cells df) ?ts) ?df,
        filenames = run_files a df rnd,
        log = Mkdir (Path (out a)) # run_row_events a df rnd,
        rng_pos = final_pos rnd (token_len a) 0 (token_cells df)\<rparr>)"
    unfolding iterrows_def nr
    using raw unfolding st0 ts fs ev append_Nil append_Cons .
  show ?thesis
    unfolding main_def Let_def loop
    using fn
    by (cases "zip_opt a")
      (simp_all add: run_manifest_def zip_events_def zip_exit_def split: sum.splits)
qed

subsection \<open>Strings and ordinals\<close>

lemma py_lower_nan_iff: "py_lower t = ''nan'' \<longleftrightarrow> nan_like t"
proof -
  have n: "lower_char c = CHR ''n'' \<longleftrightarrow> c = CHR ''n'' \<or> c = CHR ''N''" for c
    by (auto simp add: lower_char_def upper_chars_def lower_chars_def split: option.splits if_splits)
  have a: "lower_char c = CHR ''a'' \<longleftrightarrow> c = CHR ''a'' \<or> c = CHR ''A''" for c
    by (auto simp add: lower_char_def upper_chars_def lower_chars_def split: option.splits if_splits)
  have "py_lower t = ''nan'' \<longleftrightarrow>
      (\<exists>x y z. t = [x, y, z] \<and> lower_char x = CHR ''n'' \<and> lower_char y = CHR ''a'' \<and> lower_char z = CHR ''n'')"
    unfolding py_lower_def by (auto simp: map_eq_Cons_conv)
  also have "\<dots> \<longleftrightarrow> nan_like t"
    unfolding n a nan_like_def by auto
  finally show ?thesis .
qed

lemma is_missing_iff: "is_missing c \<longleftrightarrow> \<not> present c"
  by (simp add: is_missing_def present_def py_lower_nan_iff)

lemma digit_char_mem: "d < 10 \<Longrightarrow> digit_char d \<in> set ''0123456789''"
  unfolding digit_char_def by (rule nth_mem) simp

lemma str_nat_digits: "set (str_nat n) \<subseteq> set ''0123456789''"
proof (induction n rule: str_nat.induct)
  case (1 n)
  show ?case
  proof (cases "n < 10")
    case True
    then show ?thesis
      using digit_char_mem [of n] by (subst str_nat.simps) simp
  next
    case False
    have "n mod 10 < 10" by simp
    then have "digit_char (n mod 10) \<in> set ''0123456789''" by (rule digit_char_mem)
    with False 1 show ?thesis
      by (subst str_nat.simps) simp
  qed
qed

lemma str_nat_nonempty: "str_nat n \<noteq> []"
  by (subst str_nat.simps) simp

lemma length_str_nat_mono: "i \<le> n \<Longrightarrow> length (str_nat i) \<le> length (str_nat n)"
proof (induction n arbitrary: i rule: str_nat.induct)
  case (1 n)
  show ?case
  proof (cases "n < 10")
    case True
    with 1(2) have "i < 10" by simp
    with True show ?thesis
      by (simp add: str_nat.simps [of n] str_nat.simps [of i])
  next
    case False
    show ?thesis
    proof (cases "i < 10")
      case True
      with False show ?thesis
        by (simp add: str_nat.simps [of n] str_nat.simps [of i])
    next
      case i: False
      from 1(2) have "i div 10 \<le> n div 10" by (rule div_le_mono)
      with False have "length (str_nat (i div 10)) \<le> length (str_nat (n div 10))"
        by (intro 1(1)) simp_all
      with False i show ?thesis
        by (simp add: str_nat.simps [of n] str_nat.simps [of i])
    qed
  qed
qed

lemma zfill_ordinal: "zfill (str_nat i) (length (str_nat n)) = padded_ordinal i n"
proof (cases "length (str_nat n) \<le> length (str_nat i)")
  case True
  then show ?thesis by (simp add: zfill_def padded_ordinal_def)
next
  case False
  obtain c r where cr: "str_nat i = c # r"
    using str_nat_nonempty [of i] by (cases "str_nat i") auto
  have "c \<in> set ''0123456789''"
    using str_nat_digits [of i] cr by auto
  then have "c \<noteq> CHR ''+''" "c \<noteq> CHR ''-''" by auto
  with False cr show ?thesis
    by (simp add: zfill_def padded_ordinal_def)
qed

lemma length_padded_ordinal:
  "i \<le> n \<Longrightarrow> length (padded_ordinal i n) = length (str_nat n)"
  using length_str_nat_mono [of i n] by (simp add: padded_ordinal_def)

lemma fmt_str_ext: "fmt_str f = ext_of f"
  by (cases f) (simp_all add: ext_of_def)

lemma file_name_padded:
  "file_name i (length (str_nat n)) t f = padded_ordinal (i + 1) n @ ''_'' @ t @ ''.'' @ ext_of f"
  by (simp add: file_name_def zfill_ordinal fmt_str_ext)

subsection \<open>The required column\<close>

text \<open>
  Claim C4. If the loaded table has no column \<^verbatim>\<open>full_name\<close>, the run ends in
  \<^verbatim>\<open>sys.exit\<close> with the message that names the column, so with exit status 1, and it has
  had no effect before that: no directory created, no image rendered, no manifest written,
  no archive.
\<close>

theorem missing_full_name_aborts:
  assumes "''full_name'' \<notin> set (columns df)"
  shows "exit_state (main a df rnd) = Sys_exit missing_column_message
    \<and> exit_status (exit_state (main a df rnd)) = 1
    \<and> events (main a df rnd) = []
    \<and> missing_column_message \<noteq> []"
  using assms by (simp add: main_def missing_column_message_def)

theorem missing_full_name_aborts_witness:
  "''full_name'' \<notin> set (columns ex_no_name)
    \<and> exit_state (main ex_args ex_no_name ex_rnd) = Sys_exit missing_column_message
    \<and> exit_status (exit_state (main ex_args ex_no_name ex_rnd)) = 1
    \<and> events (main ex_args ex_no_name ex_rnd) = []"
proof -
  have h: "''full_name'' \<notin> set (columns ex_no_name)"
    by (simp add: columns_def ex_no_name_def)
  from missing_full_name_aborts [OF h, of ex_args ex_rnd] h show ?thesis by simp
qed

subsection \<open>Reading the events of a run\<close>

lemma written_tables_append [simp]:
  "written_tables (xs @ ys) = written_tables xs @ written_tables ys"
  by (simp add: written_tables_def)

lemma rendered_append [simp]: "rendered (xs @ ys) = rendered xs @ rendered ys"
  by (simp add: rendered_def)

lemma archives_append [simp]: "archives (xs @ ys) = archives xs @ archives ys"
  by (simp add: archives_def)

lemma observers_Cons [simp]:
  "written_tables (e # es) = tables_of e @ written_tables es"
  "rendered (e # es) = images_of e @ rendered es"
  "archives (e # es) = archives_of e @ archives es"
  "written_tables [] = []" "rendered [] = []" "archives [] = []"
  by (simp_all add: written_tables_def rendered_def archives_def)

lemma row_events_single:
  "written_tables (row_events a od t f) = []"
  "archives (row_events a od t f) = []"
  "rendered (row_events a od t f) = [(build_url (webapp_url a) t, truediv od f, format a)]"
  by (simp_all add: row_events_def)

lemma written_tables_rows:
  "written_tables (concat (map2 (\<lambda>t f. row_events a od t f) ts fs)) = []"
proof (induction ts arbitrary: fs)
  case Nil
  show ?case by simp
next
  case (Cons t ts)
  show ?case by (cases fs) (simp_all add: Cons.IH row_events_single)
qed

lemma archives_rows:
  "archives (concat (map2 (\<lambda>t f. row_events a od t f) ts fs)) = []"
proof (induction ts arbitrary: fs)
  case Nil
  show ?case by simp
next
  case (Cons t ts)
  show ?case by (cases fs) (simp_all add: Cons.IH row_events_single)
qed

lemma rendered_rows:
  "rendered (concat (map2 (\<lambda>t f. row_events a od t f) ts fs)) =
     map2 (\<lambda>t f. (build_url (webapp_url a) t, truediv od f, format a)) ts fs"
proof (induction ts arbitrary: fs)
  case Nil
  show ?case by simp
next
  case (Cons t ts)
  show ?case by (cases fs) (simp_all add: Cons.IH row_events_single)
qed

lemmas row_events_observed = written_tables_rows archives_rows rendered_rows

lemma zip_events_observed:
  "written_tables (zip_events a fs) = []"
  "rendered (zip_events a fs) = []"
  "archives (zip_events a fs) =
     (if zip_opt a
      then (case with_suffix (Path (out a)) ''.zip'' of
              Inl e \<Rightarrow> []
            | Inr zip_path \<Rightarrow>
                [(zip_path, ZIP_DEFLATED,
                  map (\<lambda>name. (truediv (Path (out a)) name, name)) fs)])
      else [])"
  by (simp_all add: zip_events_def split: sum.splits)

lemma written_tables_main:
  assumes "wf_df df" and "''full_name'' \<in> set (columns df)"
  shows "written_tables (events (main a df rnd)) = [run_manifest a df rnd]"
  by (simp add: main_closed [OF assms] run_row_events_def row_events_observed
      zip_events_observed)

lemma rendered_main:
  assumes "wf_df df" and "''full_name'' \<in> set (columns df)"
  shows "rendered (events (main a df rnd)) =
     map2 (\<lambda>t f. (build_url (webapp_url a) t, truediv (Path (out a)) f, format a))
       (run_tokens a df rnd) (run_files a df rnd)"
  by (simp add: main_closed [OF assms] run_row_events_def row_events_observed
      zip_events_observed)


lemma manifest_column_main:
  assumes "wf_df df" and "''full_name'' \<in> set (columns df)"
  shows "manifest_column (main a df rnd) name = column (run_manifest a df rnd) name"
  by (simp add: manifest_column_def written_tables_main [OF assms])

lemma column_set_column_other:
  "name' \<noteq> name \<Longrightarrow> column (set_column name vs df) name' = column df name'"
proof -
  have "map_of (map (\<lambda>kv. if fst kv = name then (fst kv, vs) else kv) xs) name' = map_of xs name'"
    if "name' \<noteq> name" for xs :: "(string \<times> cell list) list"
    using that by (induction xs) auto
  then show "name' \<noteq> name \<Longrightarrow> column (set_column name vs df) name' = column df name'"
    by (auto simp add: set_column_def column_def map_add_def split: option.splits)
qed

lemma manifest_qr_file:
  assumes "wf_df df" and "''full_name'' \<in> set (columns df)"
  shows "manifest_column (main a df rnd) ''qr_file'' = Some (map Text (run_files a df rnd))"
  by (simp add: manifest_column_main [OF assms] run_manifest_def column_set_column)

lemma manifest_token:
  assumes "wf_df df" and "''full_name'' \<in> set (columns df)"
  shows "manifest_column (main a df rnd) ''token'' =
     Some (map2 stored_cell (token_cells df) (run_tokens a df rnd))"
  by (simp add: manifest_column_main [OF assms] run_manifest_def column_set_column
      column_set_column_other)

lemma length_run_tokens: "wf_df df \<Longrightarrow> length (run_tokens a df rnd) = nrows df"
  by (simp add: run_tokens_def length_token_cells)

lemma length_run_files: "wf_df df \<Longrightarrow> length (run_files a df rnd) = nrows df"
  by (simp add: run_files_def length_run_tokens)

lemma run_files_nth:
  "wf_df df \<Longrightarrow> i < nrows df \<Longrightarrow>
   run_files a df rnd ! i =
     padded_ordinal (i + 1) (nrows df) @ ''_'' @ run_tokens a df rnd ! i @ ''.'' @ ext_of (format a)"
  by (simp add: run_files_def length_run_tokens file_name_padded)

lemma resolved_nth_present:
  "i < length cs \<Longrightarrow> \<not> is_missing (cs ! i) \<Longrightarrow>
   resolved_tokens rnd len pos cs ! i = py_strip (py_str (cs ! i))"
proof (induction cs arbitrary: i pos)
  case Nil
  then show ?case by simp
next
  case (Cons c cs)
  then show ?case by (cases i) simp_all
qed

lemma resolved_nth_missing:
  "i < length cs \<Longrightarrow> is_missing (cs ! i) \<Longrightarrow>
   \<exists>p. resolved_tokens rnd len pos cs ! i = fst (random_token rnd p len)"
proof (induction cs arbitrary: i pos)
  case Nil
  then show ?case by simp
next
  case (Cons c cs)
  show ?case
  proof (cases i)
    case 0
    with Cons.prems show ?thesis by auto
  next
    case (Suc j)
    with Cons.prems have "j < length cs" "is_missing (cs ! j)" by simp_all
    from Cons.IH [OF this] Suc show ?thesis by simp
  qed
qed

lemma manifest_token_nth:
  assumes "wf_df df" and "i < nrows df"
  shows "map2 stored_cell (token_cells df) (run_tokens a df rnd) ! i =
     stored_cell (token_cells df ! i) (run_tokens a df rnd ! i)"
  using assms by (simp add: length_run_tokens length_token_cells)

lemma token_cells_column: "column df ''token'' = Some tc \<Longrightarrow> token_cells df = tc"
  by (simp add: token_cells_def)

subsection \<open>File names, tokens and the manifest\<close>

lemma ex_table_ok: "wf_df ex_table" "''full_name'' \<in> set (columns ex_table)"
  "column ex_table ''token'' = Some [Text '' ABC123 '', NaN, Text ''NaN'']"
  by (simp_all add: wf_df_def columns_def column_def ex_table_def)

lemma strip_example: "py_strip '' ABC123 '' = ''ABC123''"
  by (simp add: py_strip_def py_isspace_def)




text \<open>
  Claim C1. For a table that passes the column check, the manifest's \<^verbatim>\<open>qr_file\<close>
  column has one entry per row, in row order; the entry of the row at 1-based position
  \<open>i + 1\<close> is that ordinal zero-padded to the decimal width of the row count, an underscore,
  the row's resolved token, a dot and the extension of the selected format. The resolved
  token \<open>toks ! i\<close> is the one in the URL rendered for the row; it is the trimmed input
  token where that is present, and the token stored in the manifest otherwise.
\<close>

theorem qr_file_column:
  assumes "wf_df df" and "''full_name'' \<in> set (columns df)"
  shows "\<exists>toks stored.
      length toks = nrows df
    \<and> manifest_column (main a df rnd) ''qr_file'' =
        Some (map (\<lambda>i. Text (padded_ordinal (i + 1) (nrows df) @ ''_'' @ toks ! i @ ''.''
                 @ ext_of (format a))) [0..<nrows df])
    \<and> (\<forall>i<nrows df. length (padded_ordinal (i + 1) (nrows df)) = length (str_nat (nrows df)))
    \<and> map fst (rendered (events (main a df rnd))) = map (build_url (webapp_url a)) toks
    \<and> manifest_column (main a df rnd) ''token'' = Some stored
    \<and> (\<forall>i<nrows df. if present (token_cells df ! i)
          then toks ! i = py_strip (py_str (token_cells df ! i))
          else stored ! i = Text (toks ! i))"
proof -
  let ?toks = "run_tokens a df rnd"
  let ?stored = "map2 stored_cell (token_cells df) ?toks"
  let ?n = "nrows df"
  have len: "length ?toks = ?n" using assms(1) by (rule length_run_tokens)
  have lenf: "length (run_files a df rnd) = ?n" using assms(1) by (rule length_run_files)
  have files: "map Text (run_files a df rnd) =
      map (\<lambda>i. Text (padded_ordinal (i + 1) ?n @ ''_'' @ ?toks ! i @ ''.'' @ ext_of (format a)))
        [0..<?n]"
    by (rule nth_equalityI) (simp_all add: lenf run_files_nth [OF assms(1)])
  have pad: "\<forall>i<?n. length (padded_ordinal (i + 1) ?n) = length (str_nat ?n)"
    by (simp add: length_padded_ordinal)
  have urls: "map fst (rendered (events (main a df rnd))) = map (build_url (webapp_url a)) ?toks"
    unfolding rendered_main [OF assms]
    by (rule nth_equalityI) (simp_all add: len lenf)
  have tok: "\<forall>i<?n. if present (token_cells df ! i)
          then ?toks ! i = py_strip (py_str (token_cells df ! i))
          else ?stored ! i = Text (?toks ! i)"
  proof (intro allI impI)
    fix i assume i: "i < ?n"
    then have il: "i < length (token_cells df)"
      using assms(1) by (simp add: length_token_cells)
    show "if present (token_cells df ! i)
          then ?toks ! i = py_strip (py_str (token_cells df ! i))
          else ?stored ! i = Text (?toks ! i)"
    proof (cases "present (token_cells df ! i)")
      case True
      then have "\<not> is_missing (token_cells df ! i)" by (simp add: is_missing_iff)
      from resolved_nth_present [OF il this] True show ?thesis
        by (simp add: run_tokens_def)
    next
      case False
      then have "is_missing (token_cells df ! i)" by (simp add: is_missing_iff)
      with False show ?thesis
        by (simp add: manifest_token_nth [OF assms(1) i] stored_cell_missing)
    qed
  qed
  from len files pad urls tok show ?thesis
    unfolding manifest_qr_file [OF assms] manifest_token [OF assms] by blast
qed

theorem qr_file_column_witness:
  "wf_df ex_table \<and> ''full_name'' \<in> set (columns ex_table)
   \<and> (\<exists>toks stored.
      length toks = nrows ex_table
    \<and> manifest_column (main ex_args ex_table ex_rnd) ''qr_file'' =
        Some (map (\<lambda>i. Text (padded_ordinal (i + 1) (nrows ex_table) @ ''_'' @ toks ! i @ ''.''
                 @ ext_of (format ex_args))) [0..<nrows ex_table])
    \<and> (\<forall>i<nrows ex_table.
          length (padded_ordinal (i + 1) (nrows ex_table)) = length (str_nat (nrows ex_table)))
    \<and> map fst (rendered (events (main ex_args ex_table ex_rnd))) =
        map (build_url (webapp_url ex_args)) toks
    \<and> manifest_column (main ex_args ex_table ex_rnd) ''token'' = Some stored
    \<and> (\<forall>i<nrows ex_table. if present (token_cells ex_table ! i)
          then toks ! i = py_strip (py_str (token_cells ex_table ! i))
          else stored ! i = Text (toks ! i)))"
  using qr_file_column [OF ex_table_ok(1) ex_table_ok(2), of ex_args ex_rnd] ex_table_ok(1,2)
  by blast

text \<open>
  Claim C2. A row whose input token is not blank after trimming and is not the \<^verbatim>\<open>nan\<close>
  placeholder has, in the manifest's \<^verbatim>\<open>token\<close> column, exactly its input cell: the
  text as given, surrounding whitespace included.
\<close>

theorem present_token_kept:
  assumes "wf_df df" and "''full_name'' \<in> set (columns df)"
    and "column df ''token'' = Some tc" and "i < nrows df"
    and "py_strip (py_str (tc ! i)) \<noteq> []" and "\<not> nan_like (py_strip (py_str (tc ! i)))"
  shows "\<exists>stored. manifest_column (main a df rnd) ''token'' = Some stored
    \<and> length stored = nrows df \<and> stored ! i = tc ! i"
proof -
  have cells: "token_cells df = tc" using assms(3) by (rule token_cells_column)
  from assms(5,6) have "\<not> is_missing (tc ! i)"
    by (simp add: is_missing_iff present_def)
  then have "stored_cell (token_cells df ! i) (run_tokens a df rnd ! i) = tc ! i"
    by (simp add: cells stored_cell_present)
  then have "map2 stored_cell (token_cells df) (run_tokens a df rnd) ! i = tc ! i"
    by (simp only: manifest_token_nth [OF assms(1,4)])
  moreover have "length (map2 stored_cell (token_cells df) (run_tokens a df rnd)) = nrows df"
    using assms(1) by (simp add: length_run_tokens length_token_cells)
  ultimately show ?thesis
    unfolding manifest_token [OF assms(1,2)] by blast
qed

theorem present_token_kept_witness:
  "wf_df ex_table \<and> ''full_name'' \<in> set (columns ex_table)
   \<and> column ex_table ''token'' = Some [Text '' ABC123 '', NaN, Text ''NaN'']
   \<and> (0::nat) < nrows ex_table
   \<and> py_strip (py_str ([Text '' ABC123 '', NaN, Text ''NaN''] ! 0)) \<noteq> []
   \<and> \<not> nan_like (py_strip (py_str ([Text '' ABC123 '', NaN, Text ''NaN''] ! 0)))
   \<and> (\<exists>stored. manifest_column (main ex_args ex_table ex_rnd) ''token'' = Some stored
        \<and> length stored = nrows ex_table
        \<and> stored ! 0 = [Text '' ABC123 '', NaN, Text ''NaN''] ! 0)"
proof -
  have h4: "(0::nat) < nrows ex_table" by (simp add: ex_table_def)
  have h5: "py_strip (py_str ([Text '' ABC123 '', NaN, Text ''NaN''] ! 0)) \<noteq> []"
    by (simp add: strip_example)
  have h6: "\<not> nan_like (py_strip (py_str ([Text '' ABC123 '', NaN, Text ''NaN''] ! 0)))"
    by (simp add: strip_example nan_like_def)
  from present_token_kept [OF ex_table_ok(1) ex_table_ok(2) ex_table_ok(3) h4 h5 h6,
      of ex_args ex_rnd] ex_table_ok h4 h5 h6
  show ?thesis by blast
qed



text \<open>
  Claim C3 says that for a present token the resolver also stores the trimmed value in the
  table, so that the manifest records it trimmed. On the sample table the first row's token
  \<^verbatim>\<open>" ABC123 "\<close> resolves to \<^verbatim>\<open>"ABC123"\<close>, but the table keeps the cell as it was and the
  manifest records the untrimmed text.
\<close>

theorem resolver_stores_trimmed_counterexample:
  "fst (resolve_token ex_args ex_rnd 0 (Text '' ABC123 '') ex_state) = ''ABC123''
   \<and> column (st_df (snd (resolve_token ex_args ex_rnd 0 (Text '' ABC123 '') ex_state))) ''token''
       = Some [Text '' ABC123 '', NaN, Text ''NaN'']
   \<and> manifest_column (main ex_args ex_table ex_rnd) ''token''
       = Some [Text '' ABC123 '', Text ''DKRY5CJQ'', Text ''X4BIPW3A'']
   \<and> Text '' ABC123 '' \<noteq> Text ''ABC123''"
  by code_simp

text \<open>
  Claim C3, amended. For a row whose token is present, the resolver returns that value
  trimmed and leaves the table as it is; the manifest records the row's input cell
  unchanged. (The table is written only when a token is generated.)
\<close>

theorem resolver_present_token:
  assumes "wf_df df" and "''full_name'' \<in> set (columns df)"
    and "column df ''token'' = Some tc" and "i < nrows df"
    and "py_strip (py_str (tc ! i)) \<noteq> []" and "\<not> nan_like (py_strip (py_str (tc ! i)))"
  shows "resolve_token a rnd i (tc ! i) st = (py_strip (py_str (tc ! i)), st)
    \<and> (\<exists>stored. manifest_column (main a df rnd) ''token'' = Some stored \<and> stored ! i = tc ! i)"
proof -
  from assms(5,6) have "py_lower (py_strip (py_str (tc ! i))) \<noteq> ''nan''"
    by (simp add: py_lower_nan_iff)
  with assms(5) have res: "resolve_token a rnd i (tc ! i) st = (py_strip (py_str (tc ! i)), st)"
    by (simp add: resolve_token_def)
  have cells: "token_cells df = tc" using assms(3) by (rule token_cells_column)
  from assms(5,6) have "\<not> is_missing (tc ! i)"
    by (simp add: is_missing_iff present_def)
  then have "stored_cell (token_cells df ! i) (run_tokens a df rnd ! i) = tc ! i"
    by (simp add: cells stored_cell_present)
  then have "map2 stored_cell (token_cells df) (run_tokens a df rnd) ! i = tc ! i"
    by (simp only: manifest_token_nth [OF assms(1,4)])
  with res show ?thesis
    unfolding manifest_token [OF assms(1,2)] by blast
qed

theorem resolver_present_token_witness:
  "wf_df ex_table \<and> ''full_name'' \<in> set (columns ex_table)
   \<and> column ex_table ''token'' = Some [Text '' ABC123 '', NaN, Text ''NaN'']
   \<and> (0::nat) < nrows ex_table
   \<and> py_strip (py_str ([Text '' ABC123 '', NaN, Text ''NaN''] ! 0)) \<noteq> []
   \<and> \<not> nan_like (py_strip (py_str ([Text '' ABC123 '', NaN, Text ''NaN''] ! 0)))
   \<and> resolve_token ex_args ex_rnd 0 ([Text '' ABC123 '', NaN, Text ''NaN''] ! 0) ex_state
       = (py_strip (py_str ([Text '' ABC123 '', NaN, Text ''NaN''] ! 0)), ex_state)
   \<and> (\<exists>stored. manifest_column (main ex_args ex_table ex_rnd) ''token'' = Some stored
        \<and> stored ! 0 = [Text '' ABC123 '', NaN, Text ''NaN''] ! 0)"
proof -
  have h4: "(0::nat) < nrows ex_table" by (simp add: ex_table_def)
  have h5: "py_strip (py_str ([Text '' ABC123 '', NaN, Text ''NaN''] ! 0)) \<noteq> []"
    by (simp add: strip_example)
  have h6: "\<not> nan_like (py_strip (py_str ([Text '' ABC123 '', NaN, Text ''NaN''] ! 0)))"
    by (simp add: strip_example nan_like_def)
  from resolver_present_token [OF ex_table_ok(1) ex_table_ok(2) ex_table_ok(3) h4 h5 h6,
      of ex_args ex_rnd ex_state] ex_table_ok h4 h5 h6
  show ?thesis by blast
qed

subsection \<open>Generated tokens\<close>

lemma random_token_length:
  "int (length (fst (random_token rnd pos len))) = max 0 len"
  by (simp add: random_token_def Let_def)

lemma alphabet_upper_or_digit: "\<forall>c\<in>set alphabet. upper_or_digit c"
  by (simp add: alphabet_def upper_or_digit_def less_eq_char_def)

lemma random_token_chars: "set (fst (random_token rnd pos len)) \<subseteq> set alphabet"
proof -
  have "alphabet ! (k mod length alphabet) \<in> set alphabet" for k
    by (rule nth_mem) (simp add: alphabet_def)
  then show ?thesis by (auto simp: random_token_def Let_def)
qed

text \<open>
  Claim C5 says that a generated token has exactly the caller-specified length. The length
  option is any integer; with \<^verbatim>\<open>--token-len -1\<close> no character is drawn, and the rows
  without a token get the empty token, whose length is not \<open>-1\<close>.
\<close>

theorem generated_length_counterexample:
  "token_len ex_neg_args = - 1
   \<and> manifest_column (main ex_neg_args ex_table ex_rnd) ''token''
       = Some [Text '' ABC123 '', Text [], Text []]
   \<and> int (length ([] :: string)) \<noteq> token_len ex_neg_args"
  by code_simp

text \<open>
  Claim C5, amended. For a row whose input token is blank, missing or a placeholder, the
  token recorded in the manifest has the caller-specified length when that is not negative
  and is empty otherwise, and consists of uppercase ASCII letters and decimal digits only.
\<close>

theorem generated_token_shape:
  assumes "wf_df df" and "''full_name'' \<in> set (columns df)" and "i < nrows df"
    and "\<not> present (token_cells df ! i)"
  shows "\<exists>stored t. manifest_column (main a df rnd) ''token'' = Some stored
    \<and> stored ! i = Text t
    \<and> int (length t) = max 0 (token_len a)
    \<and> (\<forall>c\<in>set t. upper_or_digit c)"
proof -
  have il: "i < length (token_cells df)"
    using assms(1,3) by (simp add: length_token_cells)
  have ms: "is_missing (token_cells df ! i)"
    using assms(4) by (simp add: is_missing_iff)
  from resolved_nth_missing [OF il ms]
  obtain p where p: "run_tokens a df rnd ! i = fst (random_token rnd p (token_len a))"
    unfolding run_tokens_def by blast
  let ?t = "fst (random_token rnd p (token_len a))"
  have "stored_cell (token_cells df ! i) (run_tokens a df rnd ! i) = Text ?t"
    using ms by (simp add: stored_cell_missing p)
  then have st: "map2 stored_cell (token_cells df) (run_tokens a df rnd) ! i = Text ?t"
    by (simp only: manifest_token_nth [OF assms(1,3)])
  have ln: "int (length ?t) = max 0 (token_len a)" by (rule random_token_length)
  have ch: "\<forall>c\<in>set ?t. upper_or_digit c"
    using random_token_chars [of rnd p "token_len a"] alphabet_upper_or_digit by blast
  from st ln ch show ?thesis
    unfolding manifest_token [OF assms(1,2)] by blast
qed

theorem generated_token_shape_witness:
  "wf_df ex_table \<and> ''full_name'' \<in> set (columns ex_table) \<and> (1::nat) < nrows ex_table
   \<and> \<not> present (token_cells ex_table ! 1)
   \<and> (\<exists>stored t. manifest_column (main ex_args ex_table ex_rnd) ''token'' = Some stored
        \<and> stored ! 1 = Text t
        \<and> int (length t) = max 0 (token_len ex_args)
        \<and> (\<forall>c\<in>set t. upper_or_digit c))"
proof -
  have h3: "(1::nat) < nrows ex_table" by (simp add: ex_table_def)
  have h4: "\<not> present (token_cells ex_table ! 1)"
    by (simp add: token_cells_def ex_table_ok(3) present_def py_strip_def py_isspace_def
        nan_like_def)
  from generated_token_shape [OF ex_table_ok(1) ex_table_ok(2) h3 h4, of ex_args ex_rnd]
    ex_table_ok(1,2) h3 h4
  show ?thesis by blast
qed

subsection \<open>The URL\<close>

text \<open>
  Claim C6. For every base and token the URL is the base without its trailing question
  marks, followed by \<^verbatim>\<open>?token=\<close> and the token: the base splits into a stem that does not
  end in a question mark and a run of question marks, and the URL is built on the stem. The
  function is total and looks at nothing else in the base.
\<close>

theorem url_builder:
  "\<exists>stem k. base = stem @ replicate k CHR ''?''
     \<and> \<not> ends_with CHR ''?'' stem
     \<and> build_url base token = stem @ ''?token='' @ token"
proof -
  let ?P = "\<lambda>c. c \<in> set ''?''"
  let ?stem = "py_rstrip base ''?''"
  let ?qs = "takeWhile ?P (rev base)"
  have parts: "?qs @ dropWhile ?P (rev base) = rev base" by (rule takeWhile_dropWhile_id)
  have "base = rev (rev base)" by simp
  also have "\<dots> = rev (?qs @ dropWhile ?P (rev base))" by (simp only: parts)
  also have "\<dots> = rev (dropWhile ?P (rev base)) @ rev ?qs" by (rule rev_append)
  finally have split: "base = ?stem @ rev ?qs" by (simp only: py_rstrip_def)
  have "\<forall>c\<in>set (rev ?qs). c = CHR ''?''"
    by (auto dest: set_takeWhileD)
  then have "replicate (length (rev ?qs)) CHR ''?'' = rev ?qs"
    by (rule replicate_length_same)
  with split have base: "base = ?stem @ replicate (length (rev ?qs)) CHR ''?''" by simp
  have stem: "\<not> ends_with CHR ''?'' ?stem"
  proof
    assume e: "ends_with CHR ''?'' ?stem"
    then have ne: "dropWhile ?P (rev base) \<noteq> []" by (simp add: ends_with_def py_rstrip_def)
    from e have "last (rev (dropWhile ?P (rev base))) = CHR ''?''"
      by (simp add: ends_with_def py_rstrip_def)
    with ne have "hd (dropWhile ?P (rev base)) = CHR ''?''" by (simp add: last_rev)
    moreover from ne have "\<not> ?P (hd (dropWhile ?P (rev base)))" by (rule hd_dropWhile)
    ultimately show False by simp
  qed
  have "build_url base token = ?stem @ ''?token='' @ token" by (simp add: build_url_def)
  with base stem show ?thesis by blast
qed

theorem url_builder_witness:
  "(\<exists>stem k. ''https://example.com/x??'' = stem @ replicate k CHR ''?''
     \<and> \<not> ends_with CHR ''?'' stem
     \<and> build_url ''https://example.com/x??'' ''ABC123'' = stem @ ''?token='' @ ''ABC123'')"
  by (rule url_builder)

subsection \<open>Optional columns\<close>

text \<open>
  Claim C8 says that both optional columns, \<^verbatim>\<open>email\<close> and \<^verbatim>\<open>token\<close>, are created when
  absent. For a table with the column \<^verbatim>\<open>full_name\<close> alone, the table the loop works on has
  the columns \<^verbatim>\<open>full_name\<close> and \<^verbatim>\<open>token\<close>, and the manifest has no \<^verbatim>\<open>email\<close> column.
\<close>

theorem optional_columns_counterexample:
  "columns (ensure_token_column ex_names_only) = [''full_name'', ''token'']
   \<and> manifest_column (main ex_args ex_names_only ex_rnd) ''token'' = Some [Text ''DKRY5CJQ'']
   \<and> manifest_column (main ex_args ex_names_only ex_rnd) ''email'' = None"
  by code_simp

text \<open>
  Claim C8, amended. For every loaded table, the \<^verbatim>\<open>token\<close> column is created, with the
  empty string in every row, when the input has none, and the table is left as it is when
  it has one; so the rows share a column set that includes \<^verbatim>\<open>token\<close>. The \<^verbatim>\<open>email\<close>
  column is not created: it is there afterwards exactly when the input has it.
\<close>

theorem token_column_normalized:
  assumes "wf_df df"
  shows "wf_df (ensure_token_column df)
    \<and> nrows (ensure_token_column df) = nrows df
    \<and> ''token'' \<in> set (columns (ensure_token_column df))
    \<and> (if ''token'' \<in> set (columns df)
        then ensure_token_column df = df
        else cols (ensure_token_column df) =
               cols df @ [(''token'', replicate (nrows df) (Text []))])
    \<and> (''email'' \<in> set (columns (ensure_token_column df)) \<longleftrightarrow> ''email'' \<in> set (columns df))"
proof (cases "''token'' \<in> set (columns df)")
  case True
  with assms show ?thesis by (simp add: ensure_token_column_def)
next
  case False
  with assms show ?thesis
    by (simp add: ensure_token_column_def set_column_def wf_df_def columns_def)
qed

theorem token_column_normalized_witness:
  "wf_df ex_names_only
   \<and> wf_df (ensure_token_column ex_names_only)
   \<and> nrows (ensure_token_column ex_names_only) = nrows ex_names_only
   \<and> ''token'' \<in> set (columns (ensure_token_column ex_names_only))
   \<and> (if ''token'' \<in> set (columns ex_names_only)
        then ensure_token_column ex_names_only = ex_names_only
        else cols (ensure_token_column ex_names_only) =
               cols ex_names_only @ [(''token'', replicate (nrows ex_names_only) (Text []))])
   \<and> (''email'' \<in> set (columns (ensure_token_column ex_names_only))
        \<longleftrightarrow> ''email'' \<in> set (columns ex_names_only))"
proof -
  have h: "wf_df ex_names_only" by (simp add: wf_df_def columns_def ex_names_only_def)
  from token_column_normalized [OF h] h show ?thesis by blast
qed

subsection \<open>The archive\<close>








subsection \<open>The placeholder in any casing\<close>

lemma at_set_basics [simp]:
  "columns (at_set i name v df) = columns df"
  "nrows (at_set i name v df) = nrows df"
  by (simp_all add: at_set_def columns_def comp_def cong: map_cong)

lemma wf_at_set: "wf_df df \<Longrightarrow> wf_df (at_set i name v df)"
proof -
  assume wf: "wf_df df"
  then have "distinct (columns (at_set i name v df))" by (simp add: wf_df_def)
  moreover from wf have "list_all (\<lambda>kv. length (snd kv) = nrows df) (cols (at_set i name v df))"
    by (auto simp: wf_df_def at_set_def list_all_iff)
  ultimately show ?thesis by (simp add: wf_df_def)
qed

lemma column_at_set:
  "column df name = Some tc \<Longrightarrow> column (at_set i name v df) name = Some (tc[i := v])"
proof -
  have "map_of (map (\<lambda>kv. if fst kv = name then (fst kv, (snd kv)[i := v]) else kv) xs) name
      = map_option (\<lambda>vs. vs[i := v]) (map_of xs name)"
    for xs :: "(string \<times> cell list) list"
    by (induction xs) auto
  then show "column df name = Some tc \<Longrightarrow> column (at_set i name v df) name = Some (tc[i := v])"
    by (simp add: column_def at_set_def)
qed

lemma set_column_at_set:
  "name \<in> set (columns df) \<Longrightarrow> set_column name xs (at_set i name v df) = set_column name xs df"
proof -
  assume mem: "name \<in> set (columns df)"
  have "set_column name xs (at_set i name v df) =
      (at_set i name v df)\<lparr>cols := map (\<lambda>kv. if fst kv = name then (fst kv, xs) else kv)
        (cols (at_set i name v df))\<rparr>"
    by (simp add: set_column_def mem)
  also have "\<dots> = df\<lparr>cols := map (\<lambda>kv. if fst kv = name then (fst kv, xs) else kv) (cols df)\<rparr>"
    by (simp add: at_set_def comp_def cong: map_cong)
  also have "\<dots> = set_column name xs df"
    by (simp add: set_column_def mem)
  finally show ?thesis .
qed

lemma ensure_has_token:
  "''token'' \<in> set (columns df) \<Longrightarrow> ensure_token_column df = df"
  by (simp add: ensure_token_column_def)

lemma resolved_tokens_cong:
  "list_all2 (\<lambda>c c'. is_missing c = is_missing c'
      \<and> (\<not> is_missing c \<longrightarrow> py_strip (py_str c) = py_strip (py_str c'))) cs cs' \<Longrightarrow>
   resolved_tokens rnd len pos cs = resolved_tokens rnd len pos cs'"
proof (induction cs cs' arbitrary: pos rule: list_all2_induct)
  case Nil
  show ?case by simp
next
  case (Cons c cs c' cs')
  then show ?case by simp
qed

lemma stored_cells_cong:
  "list_all2 (\<lambda>c c'. c = c' \<or> (is_missing c \<and> is_missing c')) cs cs' \<Longrightarrow>
   map2 stored_cell cs ts = map2 stored_cell cs' ts"
proof (induction cs cs' arbitrary: ts rule: list_all2_induct)
  case Nil
  show ?case by simp
next
  case (Cons c cs c' cs')
  show ?case
  proof (cases ts)
    case Nil
    then show ?thesis by simp
  next
    case (Cons t ts')
    with Cons.hyps(1) Cons.IH [of ts'] show ?thesis
      by (auto simp: stored_cell_def)
  qed
qed

lemma is_missing_NaN: "is_missing NaN"
  by (simp add: is_missing_def py_strip_def py_isspace_def py_lower_def lower_char_def
      upper_chars_def lower_chars_def)

lemma is_missing_blank: "is_missing (Text [])"
  by (simp add: is_missing_def py_strip_def)

lemma resolve_token_missing:
  "is_missing c \<Longrightarrow>
   resolve_token a rnd idx c st =
     (fst (random_token rnd (rng_pos st) (token_len a)),
      st\<lparr>st_df := at_set idx ''token'' (Text (fst (random_token rnd (rng_pos st) (token_len a))))
                    (st_df st),
         rng_pos := snd (random_token rnd (rng_pos st) (token_len a))\<rparr>)"
  by (simp add: resolve_token_def is_missing_def Let_def)

lemma with_token_cell_at_set: "with_token_cell i c df = at_set i ''token'' c df"
  by (simp add: with_token_cell_def at_set_def cong: map_cong)

lemma main_with_token_cell:
  assumes wf: "wf_df df" and fn: "''full_name'' \<in> set (columns df)"
    and col: "column df ''token'' = Some tc" and i: "i < nrows df"
    and ms: "is_missing (tc ! i)" and ms': "is_missing c"
  shows "main a (with_token_cell i c df) rnd = main a df rnd"
proof -
  let ?df' = "with_token_cell i c df"
  have mem: "''token'' \<in> set (columns df)" using col by (rule column_mem)
  have wf': "wf_df ?df'" unfolding with_token_cell_at_set using wf by (rule wf_at_set)
  have fn': "''full_name'' \<in> set (columns ?df')" using fn by (simp add: with_token_cell_at_set)
  have nr: "nrows ?df' = nrows df" by (simp add: with_token_cell_at_set)
  have cells: "token_cells df = tc" using col by (rule token_cells_column)
  have cells': "token_cells ?df' = tc[i := c]"
    using column_at_set [OF col] by (simp add: token_cells_def with_token_cell_at_set)
  have refl1: "list_all2 (\<lambda>c c'. is_missing c = is_missing c'
      \<and> (\<not> is_missing c \<longrightarrow> py_strip (py_str c) = py_strip (py_str c'))) tc tc"
    by (simp add: list_all2_same)
  have "list_all2 (\<lambda>c c'. is_missing c = is_missing c'
      \<and> (\<not> is_missing c \<longrightarrow> py_strip (py_str c) = py_strip (py_str c'))) (tc[i := tc ! i]) (tc[i := c])"
    using refl1 by (rule list_all2_update_cong) (simp add: ms ms')
  then have rel1: "list_all2 (\<lambda>c c'. is_missing c = is_missing c'
      \<and> (\<not> is_missing c \<longrightarrow> py_strip (py_str c) = py_strip (py_str c'))) tc (tc[i := c])"
    by simp
  have refl2: "list_all2 (\<lambda>c c'. c = c' \<or> (is_missing c \<and> is_missing c')) tc tc"
    by (simp add: list_all2_same)
  have "list_all2 (\<lambda>c c'. c = c' \<or> (is_missing c \<and> is_missing c')) (tc[i := tc ! i]) (tc[i := c])"
    using refl2 by (rule list_all2_update_cong) (simp add: ms ms')
  then have rel2: "list_all2 (\<lambda>c c'. c = c' \<or> (is_missing c \<and> is_missing c')) tc (tc[i := c])"
    by simp
  have toks: "run_tokens a ?df' rnd = run_tokens a df rnd"
    unfolding run_tokens_def cells cells'
    by (rule resolved_tokens_cong [symmetric]) (rule rel1)
  have files: "run_files a ?df' rnd = run_files a df rnd"
    by (simp add: run_files_def toks nr)
  have rows: "run_row_events a ?df' rnd = run_row_events a df rnd"
    by (simp add: run_row_events_def toks files)
  have stored: "map2 stored_cell (token_cells ?df') (run_tokens a ?df' rnd) =
      map2 stored_cell (token_cells df) (run_tokens a df rnd)"
    unfolding toks cells cells'
    by (rule stored_cells_cong [symmetric]) (rule rel2)
  have ens: "ensure_token_column df = df" using mem by (rule ensure_has_token)
  have ens': "ensure_token_column ?df' = ?df'"
    by (rule ensure_has_token) (simp add: with_token_cell_at_set mem)
  have man: "run_manifest a ?df' rnd = run_manifest a df rnd"
    unfolding run_manifest_def stored files ens ens'
    by (simp add: with_token_cell_at_set set_column_at_set [OF mem])
  show ?thesis
    by (simp add: main_closed [OF wf fn] main_closed [OF wf' fn'] rows man files)
qed

lemma random_token_draws:
  "random_token rnd pos len =
     (map (\<lambda>j. alphabet ! (rnd (pos + j) mod length alphabet)) [0..<nat len], pos + nat len)"
  by (simp add: random_token_def Let_def)

lemma resolved_nth_missing_at:
  "i < length cs \<Longrightarrow> is_missing (cs ! i) \<Longrightarrow>
   resolved_tokens rnd len pos cs ! i =
     fst (random_token rnd (pos + nat len * length (filter is_missing (take i cs))) len)"
proof (induction cs arbitrary: i pos)
  case Nil
  then show ?case by simp
next
  case (Cons c cs)
  show ?case
  proof (cases i)
    case 0
    with Cons.prems show ?thesis by simp
  next
    case (Suc j)
    with Cons.prems have j: "j < length cs" "is_missing (cs ! j)" by simp_all
    show ?thesis
    proof (cases "is_missing c")
      case True
      with Cons.IH [OF j, of "pos + nat len"] Suc show ?thesis
        by (simp add: random_token_draws add.assoc)
    next
      case False
      with Cons.IH [OF j, of pos] Suc show ?thesis by simp
    qed
  qed
qed

text \<open>
  Claim C9. A token that, trimmed, reads \<^verbatim>\<open>nan\<close> in any letter casing is discarded and
  replaced by a freshly generated random token: the row's cell in the manifest, its file
  name and its URL carry a token of the configured length, made of the draws that follow
  those of the earlier rows without a token, each an uppercase letter or a digit. The run is
  exactly the run on the table in which that cell is missing, and the run on the table in
  which it is empty.
\<close>

theorem nan_any_case_replaced:
  assumes "wf_df df" and "''full_name'' \<in> set (columns df)"
    and "column df ''token'' = Some tc" and "i < nrows df" and "tc ! i = Text s"
    and "nan_like (py_strip s)"
  shows "\<exists>stored files t.
      t = map (\<lambda>j. alphabet ! (rnd (nat (token_len a)
                * length (filter (\<lambda>c. \<not> present c) (take i tc)) + j) mod length alphabet))
            [0..<nat (token_len a)]
    \<and> int (length t) = max 0 (token_len a)
    \<and> (\<forall>c\<in>set t. upper_or_digit c)
    \<and> manifest_column (main a df rnd) ''token'' = Some stored
    \<and> stored ! i = Text t
    \<and> manifest_column (main a df rnd) ''qr_file'' = Some files
    \<and> files ! i = Text (padded_ordinal (i + 1) (nrows df) @ ''_'' @ t @ ''.'' @ ext_of (format a))
    \<and> fst (rendered (events (main a df rnd)) ! i) = build_url (webapp_url a) t
    \<and> main a df rnd = main a (with_token_cell i NaN df) rnd
    \<and> main a df rnd = main a (with_token_cell i (Text []) df) rnd"
proof -
  let ?p = "nat (token_len a) * length (filter (\<lambda>c. \<not> present c) (take i tc))"
  let ?t = "map (\<lambda>j. alphabet ! (rnd (?p + j) mod length alphabet)) [0..<nat (token_len a)]"
  have cells: "token_cells df = tc" using assms(3) by (rule token_cells_column)
  have il: "i < length tc" using wf_column_length [OF assms(1,3)] assms(4) by simp
  have ms: "is_missing (tc ! i)"
    using assms(5,6) by (simp add: is_missing_def py_lower_nan_iff)
  have flt: "filter is_missing (take i tc) = filter (\<lambda>c. \<not> present c) (take i tc)"
    by (rule filter_cong) (simp_all add: is_missing_iff)
  have tok: "run_tokens a df rnd ! i = ?t"
    using resolved_nth_missing_at [OF il ms, of rnd "token_len a" 0]
    by (simp add: run_tokens_def cells flt random_token_draws)
  have ln: "int (length ?t) = max 0 (token_len a)" by simp
  have "alphabet ! (k mod length alphabet) \<in> set alphabet" for k
    by (rule nth_mem) (simp add: alphabet_def)
  then have ch: "\<forall>c\<in>set ?t. upper_or_digit c"
    using alphabet_upper_or_digit by auto
  have "stored_cell (token_cells df ! i) (run_tokens a df rnd ! i) = Text ?t"
    using ms by (simp add: cells stored_cell_missing tok)
  then have st: "map2 stored_cell (token_cells df) (run_tokens a df rnd) ! i = Text ?t"
    by (simp only: manifest_token_nth [OF assms(1,4)])
  have fl: "map Text (run_files a df rnd) ! i =
      Text (padded_ordinal (i + 1) (nrows df) @ ''_'' @ ?t @ ''.'' @ ext_of (format a))"
    using assms(1,4) by (simp add: length_run_files run_files_nth tok)
  have url: "fst (rendered (events (main a df rnd)) ! i) = build_url (webapp_url a) ?t"
    unfolding rendered_main [OF assms(1,2)]
    using assms(1,4) by (simp add: length_run_files length_run_tokens tok)
  have m1: "main a df rnd = main a (with_token_cell i NaN df) rnd"
    using main_with_token_cell [OF assms(1,2,3,4) ms is_missing_NaN] by simp
  have m2: "main a df rnd = main a (with_token_cell i (Text []) df) rnd"
    using main_with_token_cell [OF assms(1,2,3,4) ms is_missing_blank] by simp
  from ln ch st fl url m1 m2 show ?thesis
    unfolding manifest_qr_file [OF assms(1,2)] manifest_token [OF assms(1,2)] by blast
qed

theorem nan_any_case_replaced_witness:
  "wf_df ex_table \<and> ''full_name'' \<in> set (columns ex_table)
   \<and> column ex_table ''token'' = Some [Text '' ABC123 '', NaN, Text ''NaN'']
   \<and> (2::nat) < nrows ex_table
   \<and> [Text '' ABC123 '', NaN, Text ''NaN''] ! 2 = Text ''NaN''
   \<and> nan_like (py_strip ''NaN'')
   \<and> manifest_column (main ex_args ex_table ex_rnd) ''token''
       = Some [Text '' ABC123 '', Text ''DKRY5CJQ'', Text ''X4BIPW3A'']
   \<and> (\<exists>stored files t.
      t = map (\<lambda>j. alphabet ! (ex_rnd (nat (token_len ex_args)
                * length (filter (\<lambda>c. \<not> present c)
                    (take 2 [Text '' ABC123 '', NaN, Text ''NaN''])) + j) mod length alphabet))
            [0..<nat (token_len ex_args)]
    \<and> int (length t) = max 0 (token_len ex_args)
    \<and> (\<forall>c\<in>set t. upper_or_digit c)
    \<and> manifest_column (main ex_args ex_table ex_rnd) ''token'' = Some stored
    \<and> stored ! 2 = Text t
    \<and> manifest_column (main ex_args ex_table ex_rnd) ''qr_file'' = Some files
    \<and> files ! 2 = Text (padded_ordinal (2 + 1) (nrows ex_table) @ ''_'' @ t @ ''.''
         @ ext_of (format ex_args))
    \<and> fst (rendered (events (main ex_args ex_table ex_rnd)) ! 2)
        = build_url (webapp_url ex_args) t
    \<and> main ex_args ex_table ex_rnd = main ex_args (with_token_cell 2 NaN ex_table) ex_rnd
    \<and> main ex_args ex_table ex_rnd = main ex_args (with_token_cell 2 (Text []) ex_table) ex_rnd)"
proof -
  have h4: "(2::nat) < nrows ex_table" by (simp add: ex_table_def)
  have h5: "[Text '' ABC123 '', NaN, Text ''NaN''] ! 2 = Text ''NaN''" by simp
  have h6: "nan_like (py_strip ''NaN'')"
    by (simp add: py_strip_def py_isspace_def nan_like_def)
  have m: "manifest_column (main ex_args ex_table ex_rnd) ''token''
       = Some [Text '' ABC123 '', Text ''DKRY5CJQ'', Text ''X4BIPW3A'']"
    by code_simp
  from nan_any_case_replaced [OF ex_table_ok(1) ex_table_ok(2) ex_table_ok(3) h4 h5 h6,
      of ex_rnd ex_args] ex_table_ok h4 h5 h6 m
  show ?thesis by blast
qed

end
